theory Spec2Isabelle
  imports Main
begin

section \<open>Data model of the Open Insights core (src/index.ts)\<close>

text \<open>
  The core module coordinates provider objects whose methods are arbitrary code with side
  effects, and it mutates container objects that the providers created. The embedding
  therefore passes an explicit world around: a store of container objects addressed by
  reference, and the providers' private state.
\<close>

type_synonym ref = nat

text \<open>
  An \<open>ExecutableContainer\<close>: the field \<open>executables\<close> that the core assigns, and
  \<open>payload\<close> for every other field a provider puts into its configuration object.
\<close>

record ('c, 't) container =
  payload :: 'c
  executables :: "'t list"

record ('c, 't, 'p) world =
  heap :: "ref \<Rightarrow> ('c, 't) container"
  pstate :: 'p

text \<open>
  The eventual state of a JavaScript promise. \<open>Pending\<close> is the promise that never
  settles. \<open>Promise.allSettled\<close> reports \<open>Fulfilled\<close> as status "fulfilled" and
  \<open>Rejected\<close> as status "rejected".
\<close>

datatype ('x, 'a) promise = Fulfilled 'a | Rejected 'x | Pending

text \<open>
  A rejection reason of the session promise: \<open>TypeError\<close> is what JavaScript throws when
  a method is called on \<open>undefined\<close>; \<open>Reason x\<close> is a reason supplied by a collaborator.
\<close>

datatype 'x reason = TypeError | Reason 'x

text \<open>
  The \<open>Provider\<close> interface. Each method is a function on the world. A call of
  \<open>fetchSessionConfig\<close> is represented by the eventual state of the promise it returns
  (a reference to the fetched container when fulfilled) together with the effect of the
  fetch on the world; the effects of the fetches are sequenced in call order. The methods
  return normally: a fetch fails by rejecting its promise, and a method that throws
  synchronously is not a value of this type.
\<close>

record ('c, 't, 'p, 'x) provider =
  shouldRun :: "('c, 't, 'p) world \<Rightarrow> bool \<times> ('c, 't, 'p) world"
  fetchSessionConfig :: "('c, 't, 'p) world \<Rightarrow> ('x, ref) promise \<times> ('c, 't, 'p) world"
  setSessionConfig :: "ref \<Rightarrow> ('c, 't, 'p) world \<Rightarrow> ('c, 't, 'p) world"
  expandTasks :: "('c, 't, 'p) world \<Rightarrow> 't list \<times> ('c, 't, 'p) world"

text \<open>
  \<open>ClientSettings\<close>. The delay is a number of milliseconds, \<open>None\<close> when the option is
  absent; \<open>sessionProcess\<close> is \<open>None\<close> when no override is supplied.
\<close>

record ('c, 't, 'p, 'x, 's) clientSettings =
  providers :: "('c, 't, 'p, 'x) provider list"
  preConfigStartDelay :: "int option"
  sessionProcess :: "(ref list \<Rightarrow> ('c, 't, 'p) world \<Rightarrow> ('x, 's) promise) option"

text \<open>
  The two imported collaborators of \<open>index.ts\<close>, whose modules are outside the file:
  the promise returned by \<open>whenReady()\<close> and \<open>defaultSessionProcessFunc\<close>. They are
  parameters of the model.
\<close>

record ('c, 't, 'p, 'x, 's) env =
  whenReady :: "('x, unit) promise"
  defaultSessionProcessFunc :: "ref list \<Rightarrow> ('c, 't, 'p) world \<Rightarrow> ('x, 's) promise"

text \<open>
  What the core does, in order. A provider is named by its position in
  \<open>settings.providers\<close>.
\<close>

datatype 't event =
    ShouldRunCalled nat
  | FetchCalled nat
  | SetSessionConfigCalled nat ref
  | ExpandTasksCalled nat
  | ExecutablesAssigned ref "'t list"
  | ProcessCalled "ref list"
  | TimerSet int

text \<open>The observable result of running a function of the core.\<close>

record ('c, 't, 'p, 'x, 's) session =
  outcome :: "('x reason, 's) promise"
  final :: "('c, 't, 'p) world"
  trace :: "'t event list"

section \<open>The orchestrator\<close>

text \<open>
  \<open>settings.providers.filter((provider) => provider.shouldRun())\<close>. The number carried
  with each kept provider is its position in \<open>settings.providers\<close>; it only names the
  provider in the trace.
\<close>

fun filter_shouldRun ::
  "nat \<Rightarrow> ('c, 't, 'p, 'x) provider list \<Rightarrow> ('c, 't, 'p) world \<Rightarrow>
   (nat \<times> ('c, 't, 'p, 'x) provider) list \<times> ('c, 't, 'p) world \<times> 't event list" where
  "filter_shouldRun i [] w = ([], w, [])"
| "filter_shouldRun i (p # ps) w =
     (case shouldRun p w of (b, w1) \<Rightarrow>
        (case filter_shouldRun (Suc i) ps w1 of (kept, w2, evs) \<Rightarrow>
           ((if b then (i, p) # kept else kept), w2, ShouldRunCalled i # evs)))"

text \<open>\<open>.map((provider) => provider.fetchSessionConfig())\<close>\<close>

fun map_fetchSessionConfig ::
  "(nat \<times> ('c, 't, 'p, 'x) provider) list \<Rightarrow> ('c, 't, 'p) world \<Rightarrow>
   ('x, ref) promise list \<times> ('c, 't, 'p) world \<times> 't event list" where
  "map_fetchSessionConfig [] w = ([], w, [])"
| "map_fetchSessionConfig ((i, p) # ps) w =
     (case fetchSessionConfig p w of (r, w1) \<Rightarrow>
        (case map_fetchSessionConfig ps w1 of (rs, w2, evs) \<Rightarrow>
           (r # rs, w2, FetchCalled i # evs)))"

fun isPending :: "('x, 'a) promise \<Rightarrow> bool" where
  "isPending Pending = True"
| "isPending (Fulfilled v) = False"
| "isPending (Rejected x) = False"

text \<open>
  \<open>settled.filter((r) => r.status === "fulfilled").map((r) => r.value)\<close>:
  the values of the fulfilled results, in order.
\<close>

fun sessionConfigsOf :: "('x, 'a) promise list \<Rightarrow> 'a list" where
  "sessionConfigsOf [] = []"
| "sessionConfigsOf (Fulfilled v # rs) = v # sessionConfigsOf rs"
| "sessionConfigsOf (Rejected x # rs) = sessionConfigsOf rs"
| "sessionConfigsOf (Pending # rs) = sessionConfigsOf rs"

text \<open>\<open>v.executables = ts\<close>\<close>

definition assignExecutables ::
  "ref \<Rightarrow> 't list \<Rightarrow> ('c, 't, 'p) world \<Rightarrow> ('c, 't, 'p) world" where
  "assignExecutables v ts w = w\<lparr>heap := (heap w)(v := (heap w v)\<lparr>executables := ts\<rparr>)\<rparr>"

text \<open>
  \<open>sessionConfigs.forEach((v, i) => { ... })\<close>, from index \<open>i\<close> on. The provider is
  read from \<open>settings.providers\<close> at the index of the configuration in
  \<open>sessionConfigs\<close>. Past the end of the list JavaScript reads \<open>undefined\<close>, and
  the call of \<open>setSessionConfig\<close> on it throws a TypeError, which ends the loop.
\<close>

fun forEach_sessionConfigs ::
  "('c, 't, 'p, 'x) provider list \<Rightarrow> nat \<Rightarrow> ref list \<Rightarrow> ('c, 't, 'p) world \<Rightarrow>
   'x reason option \<times> ('c, 't, 'p) world \<times> 't event list" where
  "forEach_sessionConfigs ps i [] w = (None, w, [])"
| "forEach_sessionConfigs ps i (v # vs) w =
     (if i < length ps then
        (let p = ps ! i;
             w1 = setSessionConfig p v w
         in case expandTasks p w1 of (ts, w2) \<Rightarrow>
              (case forEach_sessionConfigs ps (Suc i) vs (assignExecutables v ts w2) of
                 (thrown, w3, evs) \<Rightarrow>
                   (thrown, w3,
                    SetSessionConfigCalled i v # ExpandTasksCalled i #
                    ExecutablesAssigned v ts # evs)))
      else (Some TypeError, w, []))"

text \<open>\<open>settings.sessionProcess || defaultSessionProcessFunc\<close>\<close>

definition processOf ::
  "('c, 't, 'p, 'x, 's) env \<Rightarrow> ('c, 't, 'p, 'x, 's) clientSettings \<Rightarrow>
   ref list \<Rightarrow> ('c, 't, 'p) world \<Rightarrow> ('x, 's) promise" where
  "processOf e settings =
     (case sessionProcess settings of Some f \<Rightarrow> f | None \<Rightarrow> defaultSessionProcessFunc e)"

text \<open>A promise returned from a \<open>then\<close> callback is adopted by the promise of \<open>then\<close>.\<close>

fun adopt :: "('x, 's) promise \<Rightarrow> ('x reason, 's) promise" where
  "adopt (Fulfilled r) = Fulfilled r"
| "adopt (Rejected x) = Rejected (Reason x)"
| "adopt Pending = Pending"

text \<open>The providers for which \<open>shouldRun\<close> returned true, and the world after asking.\<close>

definition eligible ::
  "('c, 't, 'p, 'x, 's) clientSettings \<Rightarrow> ('c, 't, 'p) world \<Rightarrow>
   (nat \<times> ('c, 't, 'p, 'x) provider) list \<times> ('c, 't, 'p) world \<times> 't event list" where
  "eligible settings w = filter_shouldRun 0 (providers settings) w"

text \<open>The argument of \<open>Promise.allSettled\<close>, and the world after the fetches.\<close>

definition fetches ::
  "('c, 't, 'p, 'x, 's) clientSettings \<Rightarrow> ('c, 't, 'p) world \<Rightarrow>
   ('x, ref) promise list \<times> ('c, 't, 'p) world \<times> 't event list" where
  "fetches settings w =
     (case eligible settings w of (kept, w1, evs1) \<Rightarrow>
        (case map_fetchSessionConfig kept w1 of (rs, w2, evs2) \<Rightarrow> (rs, w2, evs1 @ evs2)))"

text \<open>
  \<open>start\<close>. The promise of \<open>Promise.allSettled\<close> is fulfilled once every promise given
  to it has settled, and never rejected; while one of them stays pending the \<open>then\<close>
  callback does not run. An exception thrown in the callback rejects the promise of \<open>then\<close>.
\<close>

definition start ::
  "('c, 't, 'p, 'x, 's) env \<Rightarrow> ('c, 't, 'p, 'x, 's) clientSettings \<Rightarrow> ('c, 't, 'p) world \<Rightarrow>
   ('c, 't, 'p, 'x, 's) session" where
  "start e settings w =
     (case fetches settings w of (settled, w2, evs2) \<Rightarrow>
        if list_ex isPending settled
        then \<lparr>outcome = Pending, final = w2, trace = evs2\<rparr>
        else
          (let sessionConfigs = sessionConfigsOf settled
           in case forEach_sessionConfigs (providers settings) 0 sessionConfigs w2 of
                (Some err, w3, evs3) \<Rightarrow>
                  \<lparr>outcome = Rejected err, final = w3, trace = evs2 @ evs3\<rparr>
              | (None, w3, evs3) \<Rightarrow>
                  \<lparr>outcome = adopt (processOf e settings sessionConfigs w3), final = w3,
                   trace = evs2 @ evs3 @ [ProcessCalled sessionConfigs]\<rparr>))"

text \<open>
  \<open>startLater\<close>: the promise constructor is given \<open>resolve\<close> only, and the timer callback
  chains \<open>then((result) => resolve(result))\<close> on \<open>start\<close>: the new promise is resolved
  when the promise of \<open>start\<close> is fulfilled, and nothing settles it otherwise.
\<close>

definition startLater ::
  "('c, 't, 'p, 'x, 's) env \<Rightarrow> int \<Rightarrow> ('c, 't, 'p, 'x, 's) clientSettings \<Rightarrow>
   ('c, 't, 'p) world \<Rightarrow> ('c, 't, 'p, 'x, 's) session" where
  "startLater e delay settings w =
     (let s = start e settings w
      in \<lparr>outcome = (case outcome s of Fulfilled r \<Rightarrow> Fulfilled r | _ \<Rightarrow> Pending),
          final = final s,
          trace = TimerSet delay # trace s\<rparr>)"

text \<open>
  \<open>init\<close>. In \<open>if (settings.preConfigStartDelay)\<close> an absent delay and \<open>0\<close> are
  falsy; every other number of milliseconds is truthy, a negative one too. Delays are
  whole milliseconds here, so \<open>NaN\<close> (falsy as well) is not a value of the model.
\<close>

definition init ::
  "('c, 't, 'p, 'x, 's) env \<Rightarrow> ('c, 't, 'p, 'x, 's) clientSettings \<Rightarrow> ('c, 't, 'p) world \<Rightarrow>
   ('c, 't, 'p, 'x, 's) session" where
  "init e settings w =
     (case whenReady e of
        Fulfilled u \<Rightarrow>
          (case preConfigStartDelay settings of
             Some delay \<Rightarrow>
               if delay \<noteq> 0 then startLater e delay settings w else start e settings w
           | None \<Rightarrow> start e settings w)
      | Rejected x \<Rightarrow> \<lparr>outcome = Rejected (Reason x), final = w, trace = []\<rparr>
      | Pending \<Rightarrow> \<lparr>outcome = Pending, final = w, trace = []\<rparr>)"

section \<open>Reading a trace\<close>

text \<open>The events of the fan-out: asking \<open>shouldRun\<close> and starting a fetch.\<close>

fun isFanOut :: "'t event \<Rightarrow> bool" where
  "isFanOut (ShouldRunCalled i) = True"
| "isFanOut (FetchCalled i) = True"
| "isFanOut (SetSessionConfigCalled i v) = False"
| "isFanOut (ExpandTasksCalled i) = False"
| "isFanOut (ExecutablesAssigned v ts) = False"
| "isFanOut (ProcessCalled vs) = False"
| "isFanOut (TimerSet d) = False"

text \<open>The arguments of the calls of the processing function, in order.\<close>

fun processCalls :: "'t event list \<Rightarrow> ref list list" where
  "processCalls [] = []"
| "processCalls (ProcessCalled vs # es) = vs # processCalls es"
| "processCalls (ShouldRunCalled i # es) = processCalls es"
| "processCalls (FetchCalled i # es) = processCalls es"
| "processCalls (SetSessionConfigCalled i v # es) = processCalls es"
| "processCalls (ExpandTasksCalled i # es) = processCalls es"
| "processCalls (ExecutablesAssigned v ts # es) = processCalls es"
| "processCalls (TimerSet d # es) = processCalls es"

text \<open>The containers whose \<open>executables\<close> field was assigned, one entry per assignment.\<close>

fun assignments :: "'t event list \<Rightarrow> ref list" where
  "assignments [] = []"
| "assignments (ExecutablesAssigned v ts # es) = v # assignments es"
| "assignments (ShouldRunCalled i # es) = assignments es"
| "assignments (FetchCalled i # es) = assignments es"
| "assignments (SetSessionConfigCalled i v # es) = assignments es"
| "assignments (ExpandTasksCalled i # es) = assignments es"
| "assignments (ProcessCalled vs # es) = assignments es"
| "assignments (TimerSet d # es) = assignments es"

text \<open>The delays of the timers set, in order.\<close>

fun timers :: "'t event list \<Rightarrow> int list" where
  "timers [] = []"
| "timers (TimerSet d # es) = d # timers es"
| "timers (ShouldRunCalled i # es) = timers es"
| "timers (FetchCalled i # es) = timers es"
| "timers (SetSessionConfigCalled i v # es) = timers es"
| "timers (ExpandTasksCalled i # es) = timers es"
| "timers (ExecutablesAssigned v ts # es) = timers es"
| "timers (ProcessCalled vs # es) = timers es"

text \<open>The calls of provider capabilities.\<close>

fun isCapabilityCall :: "'t event \<Rightarrow> bool" where
  "isCapabilityCall (ShouldRunCalled i) = True"
| "isCapabilityCall (FetchCalled i) = True"
| "isCapabilityCall (SetSessionConfigCalled i v) = True"
| "isCapabilityCall (ExpandTasksCalled i) = True"
| "isCapabilityCall (ExecutablesAssigned v ts) = False"
| "isCapabilityCall (ProcessCalled vs) = False"
| "isCapabilityCall (TimerSet d) = False"

text \<open>The provider a call of the mutation phase goes to.\<close>

fun calledProvider :: "'t event \<Rightarrow> nat option" where
  "calledProvider (SetSessionConfigCalled i v) = Some i"
| "calledProvider (ExpandTasksCalled i) = Some i"
| "calledProvider (ShouldRunCalled i) = None"
| "calledProvider (FetchCalled i) = None"
| "calledProvider (ExecutablesAssigned v ts) = None"
| "calledProvider (ProcessCalled vs) = None"
| "calledProvider (TimerSet d) = None"

section \<open>Test doubles\<close>

text \<open>
  A provider as a test would stub it: \<open>shouldRun\<close> answers \<open>run\<close>, the fetch settles
  as \<open>fetched\<close>, \<open>expandTasks\<close> returns \<open>tasks\<close>, and \<open>setSessionConfig\<close> records the
  configuration received under the provider's \<open>name\<close> in the provider state.
\<close>

definition stub ::
  "nat \<Rightarrow> bool \<Rightarrow> (nat, ref) promise \<Rightarrow> nat list \<Rightarrow>
   (nat, nat, nat \<Rightarrow> ref option, nat) provider" where
  "stub name run fetched tasks =
     \<lparr>shouldRun = (\<lambda>w. (run, w)),
      fetchSessionConfig = (\<lambda>w. (fetched, w)),
      setSessionConfig = (\<lambda>v w. w\<lparr>pstate := (pstate w)(name \<mapsto> v)\<rparr>),
      expandTasks = (\<lambda>w. (tasks, w))\<rparr>"

text \<open>The container at reference \<open>r\<close> has payload \<open>r\<close>; no provider has a configuration.\<close>

definition world0 :: "(nat, nat, nat \<Rightarrow> ref option) world" where
  "world0 = \<lparr>heap = (\<lambda>r. \<lparr>payload = r, executables = []\<rparr>), pstate = (\<lambda>n. None)\<rparr>"

text \<open>The page is ready; the default processing function resolves with \<open>0\<close>.\<close>

definition env0 :: "(nat, nat, nat \<Rightarrow> ref option, nat, nat) env" where
  "env0 = \<lparr>whenReady = Fulfilled (), defaultSessionProcessFunc = (\<lambda>cs w. Fulfilled 0)\<rparr>"

definition settingsOf ::
  "(nat, nat, nat \<Rightarrow> ref option, nat) provider list \<Rightarrow>
   (nat, nat, nat \<Rightarrow> ref option, nat, nat) clientSettings" where
  "settingsOf ps = \<lparr>providers = ps, preConfigStartDelay = None, sessionProcess = None\<rparr>"

text \<open>
  The end-to-end example of the specification: A runs and its fetch succeeds with
  container \<open>5\<close>, B does not run, C runs and its fetch fails.
\<close>

definition specExample :: "(nat, nat, nat \<Rightarrow> ref option, nat, nat) clientSettings" where
  "specExample =
     settingsOf [stub 0 True (Fulfilled 5) [1], stub 1 False (Rejected 0) [],
                 stub 2 True (Rejected 9) [3]]"

text \<open>The first provider does not run; the second runs and fetches container \<open>7\<close>.\<close>

definition skippedFirst :: "(nat, nat, nat \<Rightarrow> ref option, nat, nat) clientSettings" where
  "skippedFirst = settingsOf [stub 0 False (Rejected 0) [], stub 1 True (Fulfilled 7) [1]]"

text \<open>Two providers whose fetches resolve to the same container object \<open>5\<close>.\<close>

definition sharedContainer :: "(nat, nat, nat \<Rightarrow> ref option, nat, nat) clientSettings" where
  "sharedContainer = settingsOf [stub 0 True (Fulfilled 5) [1], stub 1 True (Fulfilled 5) [2]]"

text \<open>No provider, a start delay of 100 ms, and a processing function that rejects.\<close>

definition delayedRejecting :: "(nat, nat, nat \<Rightarrow> ref option, nat, nat) clientSettings" where
  "delayedRejecting =
     \<lparr>providers = [], preConfigStartDelay = Some 100,
      sessionProcess = Some (\<lambda>cs w. Rejected 3)\<rparr>"

text \<open>Both providers run; the fetch of the first fails, the second fetches container \<open>7\<close>.\<close>

definition failedFirst :: "(nat, nat, nat \<Rightarrow> ref option, nat, nat) clientSettings" where
  "failedFirst = settingsOf [stub 0 True (Rejected 9) [2], stub 1 True (Fulfilled 7) [1]]"

text \<open>Both providers run and both fetches fail.\<close>

definition allFailing :: "(nat, nat, nat \<Rightarrow> ref option, nat, nat) clientSettings" where
  "allFailing = settingsOf [stub 0 True (Rejected 4) [1], stub 1 True (Rejected 5) [2]]"

text \<open>No provider and a start delay of 100 ms.\<close>

definition delayedEmpty :: "(nat, nat, nat \<Rightarrow> ref option, nat, nat) clientSettings" where
  "delayedEmpty = \<lparr>providers = [], preConfigStartDelay = Some 100, sessionProcess = None\<rparr>"

text \<open>Both providers run; the first fetches container \<open>6\<close>, the second container \<open>7\<close>.\<close>

definition succeededFirst :: "(nat, nat, nat \<Rightarrow> ref option, nat, nat) clientSettings" where
  "succeededFirst = settingsOf [stub 0 True (Fulfilled 6) [2], stub 1 True (Fulfilled 7) [1]]"

text \<open>
  The same settings with a start delay and a processing function that rejects with
  reason \<open>3\<close>.
\<close>

definition rejecting ::
  "(nat, nat, nat \<Rightarrow> ref option, nat, nat) clientSettings \<Rightarrow> int \<Rightarrow>
   (nat, nat, nat \<Rightarrow> ref option, nat, nat) clientSettings" where
  "rejecting settings delay =
     settings\<lparr>preConfigStartDelay := Some delay, sessionProcess := Some (\<lambda>cs w. Rejected 3)\<rparr>"

text \<open>Status "rejected" of a settled result.\<close>

fun isRejected :: "('x, 'a) promise \<Rightarrow> bool" where
  "isRejected (Rejected x) = True"
| "isRejected (Fulfilled v) = False"
| "isRejected Pending = False"

text \<open>
  A provider does not write to the containers when it receives its configuration or
  expands its tasks.
\<close>

definition leavesContainers :: "('c, 't, 'p, 'x) provider \<Rightarrow> bool" where
  "leavesContainers p \<longleftrightarrow>
     (\<forall>v u. heap (setSessionConfig p v u) = heap u) \<and>
     (\<forall>u. heap (snd (expandTasks p u)) = heap u)"

section \<open>The shape of a run of the orchestrator\<close>

lemma filter_shouldRun_trace:
  "filter_shouldRun i ps w = (kept, w', evs) \<Longrightarrow> evs = map ShouldRunCalled [i..<i + length ps]"
proof (induction ps arbitrary: i w kept w' evs)
  case Nil
  then show ?case by simp
next
  case (Cons p ps)
  have u: "[i..<i + length (p # ps)] = i # [Suc i..<Suc i + length ps]"
    by (subst upt_rec) simp
  from Cons.prems obtain b w1 kept' evs' where
    s: "shouldRun p w = (b, w1)" and r: "filter_shouldRun (Suc i) ps w1 = (kept', w', evs')"
    and e: "evs = ShouldRunCalled i # evs'"
    by (auto split: prod.splits)
  from Cons.IH [OF r] e u show ?case by simp
qed

lemma filter_shouldRun_length:
  "filter_shouldRun i ps w = (kept, w', evs) \<Longrightarrow> length kept \<le> length ps"
proof (induction ps arbitrary: i w kept w' evs)
  case Nil
  then show ?case by simp
next
  case (Cons p ps)
  then show ?case
    by (fastforce split: prod.splits if_splits)
qed

lemma map_fetch_trace:
  "map_fetchSessionConfig kept w = (rs, w', evs) \<Longrightarrow>
     length rs = length kept \<and> evs = map FetchCalled (map fst kept)"
proof (induction kept arbitrary: w rs w' evs)
  case Nil
  then show ?case by simp
next
  case (Cons a kept)
  then show ?case
    by (cases a) (fastforce split: prod.splits)
qed

lemma sessionConfigsOf_length: "length (sessionConfigsOf rs) \<le> length rs"
  by (induction rs rule: sessionConfigsOf.induct) auto

lemma sessionConfigsOf_set: "set (sessionConfigsOf rs) = {v. Fulfilled v \<in> set rs}"
  by (induction rs rule: sessionConfigsOf.induct) auto

lemma forEach_completes:
  "forEach_sessionConfigs ps i vs w = (thrown, w', evs) \<Longrightarrow> i + length vs \<le> length ps \<Longrightarrow>
     thrown = None"
proof (induction vs arbitrary: i w thrown w' evs)
  case Nil
  then show ?case by simp
next
  case (Cons v vs)
  from Cons.prems(2) have l: "i < length ps" "Suc i + length vs \<le> length ps" by simp_all
  from Cons.prems(1) l(1) obtain w2 w3 evs' where
    "forEach_sessionConfigs ps (Suc i) vs w2 = (thrown, w3, evs')"
    by (auto simp: Let_def split: prod.splits)
  from Cons.IH [OF this l(2)] show ?case .
qed

lemma forEach_trace:
  "forEach_sessionConfigs ps i vs w = (thrown, w', evs) \<Longrightarrow>
     \<not> list_ex isFanOut evs \<and> processCalls evs = [] \<and> timers evs = [] \<and>
     (thrown = None \<longrightarrow> assignments evs = vs)"
proof (induction vs arbitrary: i w thrown w' evs)
  case Nil
  then show ?case by simp
next
  case (Cons v vs)
  then show ?case
    by (fastforce simp: Let_def split: prod.splits if_splits)
qed

lemma fanOut_only:
  "list_all isFanOut evs \<Longrightarrow> processCalls evs = [] \<and> timers evs = [] \<and> assignments evs = []"
  by (induction evs rule: processCalls.induct) simp_all

lemma processCalls_append: "processCalls (xs @ ys) = processCalls xs @ processCalls ys"
  by (induction xs rule: processCalls.induct) auto
lemma assignments_append: "assignments (xs @ ys) = assignments xs @ assignments ys"
  by (induction xs rule: assignments.induct) auto
lemma timers_append: "timers (xs @ ys) = timers xs @ timers ys"
  by (induction xs rule: timers.induct) auto

lemma fetches_shape:
  assumes "fetches settings w = (settled, w2, evs2)"
  shows "\<exists>kept w1 evs1. eligible settings w = (kept, w1, evs1) \<and>
           length settled = length kept \<and> length kept \<le> length (providers settings) \<and>
           list_all isFanOut evs2 \<and>
           evs2 = map ShouldRunCalled [0..<length (providers settings)] @ map FetchCalled (map fst kept)"
proof -
  obtain kept w1 evs1 where k: "eligible settings w = (kept, w1, evs1)"
    by (cases "eligible settings w") auto
  obtain rs w2' evs2' where m: "map_fetchSessionConfig kept w1 = (rs, w2', evs2')"
    by (cases "map_fetchSessionConfig kept w1") auto
  from k have f: "filter_shouldRun 0 (providers settings) w = (kept, w1, evs1)"
    by (simp add: eligible_def)
  from assms k m have eq: "settled = rs" "evs2 = evs1 @ evs2'"
    by (simp_all add: fetches_def)
  from filter_shouldRun_trace [OF f] map_fetch_trace [OF m] eq
  have t: "evs2 = map ShouldRunCalled [0..<length (providers settings)] @
             map FetchCalled (map fst kept)"
    by simp
  then have "list_all isFanOut evs2"
    by (auto simp: list_all_iff)
  with t filter_shouldRun_length [OF f] map_fetch_trace [OF m] eq k
  show ?thesis by simp
qed

lemma start_pending:
  assumes "fetches settings w = (settled, w2, evs2)" and "list_ex isPending settled"
  shows "start e settings w = \<lparr>outcome = Pending, final = w2, trace = evs2\<rparr>"
  using assms by (simp add: start_def)

lemma sessionConfigs_fit:
  assumes "fetches settings w = (settled, w2, evs2)"
  shows "length (sessionConfigsOf settled) \<le> length (providers settings)"
proof -
  from fetches_shape [OF assms] have "length settled \<le> length (providers settings)"
    by auto
  with sessionConfigsOf_length [of settled] show ?thesis by simp
qed

lemma start_settled:
  assumes f: "fetches settings w = (settled, w2, evs2)" and s: "\<not> list_ex isPending settled"
  shows "\<exists>w3 evs3.
           forEach_sessionConfigs (providers settings) 0 (sessionConfigsOf settled) w2 =
             (None, w3, evs3) \<and>
           start e settings w =
             \<lparr>outcome = adopt (processOf e settings (sessionConfigsOf settled) w3),
              final = w3,
              trace = evs2 @ evs3 @ [ProcessCalled (sessionConfigsOf settled)]\<rparr>"
proof -
  obtain thrown w3 evs3 where
    r: "forEach_sessionConfigs (providers settings) 0 (sessionConfigsOf settled) w2 =
          (thrown, w3, evs3)"
    by (cases "forEach_sessionConfigs (providers settings) 0 (sessionConfigsOf settled) w2") auto
  from sessionConfigs_fit [OF f] forEach_completes [OF r] have "thrown = None" by simp
  with f s r show ?thesis by (simp add: start_def Let_def)
qed

lemma start_trace_timers:
  "timers (trace (start e settings w)) = []"
proof -
  obtain settled w2 evs2 where f: "fetches settings w = (settled, w2, evs2)"
    by (cases "fetches settings w") auto
  from fetches_shape [OF f] fanOut_only [of evs2] have t2: "timers evs2 = []" by auto
  show ?thesis
  proof (cases "list_ex isPending settled")
    case True
    from start_pending [OF f True, of e] t2 show ?thesis by simp
  next
    case False
    from start_settled [OF f False, of e] obtain w3 evs3 where
      r: "forEach_sessionConfigs (providers settings) 0 (sessionConfigsOf settled) w2 =
          (None, w3, evs3)" and
      st: "trace (start e settings w) = evs2 @ evs3 @ [ProcessCalled (sessionConfigsOf settled)]"
      by auto
    from forEach_trace [OF r] t2 st show ?thesis by (simp add: timers_append)
  qed
qed

lemmas example_defs =
  specExample_def skippedFirst_def sharedContainer_def delayedRejecting_def failedFirst_def
  allFailing_def delayedEmpty_def succeededFirst_def rejecting_def settingsOf_def
  stub_def world0_def env0_def start_def fetches_def eligible_def processOf_def
  assignExecutables_def

lemma adopt_rejected:
  "adopt p = Rejected x \<Longrightarrow> \<exists>y. x = Reason y \<and> p = Rejected y"
  by (cases p) auto

lemma sessionConfigsOf_rejected:
  "list_all isRejected rs \<Longrightarrow> sessionConfigsOf rs = [] \<and> \<not> list_ex isPending rs"
  by (induction rs rule: sessionConfigsOf.induct) simp_all

lemma start_no_survivor:
  assumes f: "fetches settings w = (settled, w2, evs2)"
    and s: "\<not> list_ex isPending settled" and n: "sessionConfigsOf settled = []"
  shows "start e settings w =
           \<lparr>outcome = adopt (processOf e settings [] w2), final = w2,
            trace = evs2 @ [ProcessCalled []]\<rparr>"
  using start_settled [OF f s, of e] n by auto

text \<open>
  The join: the trace of \<open>start\<close> is the fan-out (every provider asked \<open>shouldRun\<close>,
  then every eligible provider fetched) followed by events that are none of the fan-out.
  While one fetch stays pending nothing follows the fan-out and the promise of \<open>start\<close>
  stays pending. Once all have settled, the processing function is called once with the
  values of exactly the fulfilled fetches, and the promise of \<open>start\<close> is rejected only
  when the processing function rejects.
\<close>

lemma start_join_barrier:
  assumes "fetches settings w = (settled, w2, evs2)"
  shows "\<exists>evs3.
           trace (start e settings w) = evs2 @ evs3 \<and>
           evs2 = map ShouldRunCalled [0..<length (providers settings)] @
                  map FetchCalled (map fst (fst (eligible settings w))) \<and>
           list_all isFanOut evs2 \<and> \<not> list_ex isFanOut evs3 \<and>
           (if list_ex isPending settled
            then evs3 = [] \<and> outcome (start e settings w) = Pending
            else processCalls evs3 = [sessionConfigsOf settled] \<and>
                 set (sessionConfigsOf settled) = {v. Fulfilled v \<in> set settled} \<and>
                 outcome (start e settings w) =
                   adopt (processOf e settings (sessionConfigsOf settled)
                            (final (start e settings w)))) \<and>
           (\<forall>x. outcome (start e settings w) = Rejected x \<longrightarrow>
                (\<exists>y. x = Reason y \<and>
                     processOf e settings (sessionConfigsOf settled)
                       (final (start e settings w)) = Rejected y))"
proof -
  from fetches_shape [OF assms] have
    sh: "evs2 = map ShouldRunCalled [0..<length (providers settings)] @
                map FetchCalled (map fst (fst (eligible settings w)))"
    and fo: "list_all isFanOut evs2"
    by auto
  show ?thesis
  proof (cases "list_ex isPending settled")
    case True
    from start_pending [OF assms True, of e] have
      "trace (start e settings w) = evs2 @ []" "outcome (start e settings w) = Pending"
      by simp_all
    with sh fo True show ?thesis by auto
  next
    case False
    from start_settled [OF assms False, of e] obtain w3 evs3 where
      r: "forEach_sessionConfigs (providers settings) 0 (sessionConfigsOf settled) w2 =
            (None, w3, evs3)"
      and st: "start e settings w =
             \<lparr>outcome = adopt (processOf e settings (sessionConfigsOf settled) w3),
              final = w3,
              trace = evs2 @ evs3 @ [ProcessCalled (sessionConfigsOf settled)]\<rparr>"
      by auto
    let ?post = "evs3 @ [ProcessCalled (sessionConfigsOf settled)]"
    from forEach_trace [OF r] have
      p1: "\<not> list_ex isFanOut ?post" and p2: "processCalls ?post = [sessionConfigsOf settled]"
      by (simp_all add: processCalls_append)
    from st have
      t: "trace (start e settings w) = evs2 @ ?post" and
      f: "final (start e settings w) = w3" and
      o: "outcome (start e settings w) = adopt (processOf e settings (sessionConfigsOf settled) w3)"
      by simp_all
    from o f have
      rj: "\<forall>x. outcome (start e settings w) = Rejected x \<longrightarrow>
                (\<exists>y. x = Reason y \<and>
                     processOf e settings (sessionConfigsOf settled)
                       (final (start e settings w)) = Rejected y)"
      by (auto dest: adopt_rejected)
    from t sh fo p1 p2 o f rj False sessionConfigsOf_set [of settled]
    show ?thesis by (intro exI [of _ ?post]) simp
  qed
qed

text \<open>
  Without a surviving configuration (no provider, no eligible provider, or every fetch
  failed) \<open>start\<close> still calls the processing function once, with the empty sequence,
  and its promise is the promise of that call.
\<close>

lemma start_empty_dispatch:
  assumes f: "fetches settings w = (settled, w2, evs2)"
    and c: "providers settings = [] \<or> fst (eligible settings w) = [] \<or> list_all isRejected settled"
  shows "processCalls (trace (start e settings w)) = [[]] \<and>
         final (start e settings w) = w2 \<and>
         outcome (start e settings w) =
           adopt ((case sessionProcess settings of
                     Some override \<Rightarrow> override
                   | None \<Rightarrow> defaultSessionProcessFunc e) [] w2)"
proof -
  from fetches_shape [OF f] obtain kept w1 evs1 where
    k: "eligible settings w = (kept, w1, evs1)" and
    l: "length settled = length kept" "length kept \<le> length (providers settings)" and
    fo: "list_all isFanOut evs2"
    by auto
  have "sessionConfigsOf settled = [] \<and> \<not> list_ex isPending settled"
  proof -
    from c consider "providers settings = []" | "fst (eligible settings w) = []"
      | "list_all isRejected settled" by blast
    then show ?thesis
    proof cases
      case 1
      with l have "settled = []" by simp
      then show ?thesis by simp
    next
      case 2
      with k l have "settled = []" by simp
      then show ?thesis by simp
    next
      case 3
      then show ?thesis by (rule sessionConfigsOf_rejected)
    qed
  qed
  then have st: "start e settings w =
           \<lparr>outcome = adopt (processOf e settings [] w2), final = w2,
            trace = evs2 @ [ProcessCalled []]\<rparr>"
    using start_no_survivor [OF f] by blast
  from fanOut_only [OF fo] have "processCalls evs2 = []" by simp
  with st show ?thesis by (simp add: processCalls_append processOf_def)
qed

text \<open>
  The dispatch is the last step of \<open>start\<close>: \<open>settings.sessionProcess\<close> when it is
  supplied and \<open>defaultSessionProcessFunc\<close> otherwise, called once with the ordered
  sequence of the fulfilled fetches' containers, after one assignment for each of them.
\<close>

lemma start_dispatch:
  assumes f: "fetches settings w = (settled, w2, evs2)"
  shows "if list_ex isPending settled
         then processCalls (trace (start e settings w)) = [] \<and>
              outcome (start e settings w) = Pending
         else (\<exists>evs. trace (start e settings w) =
                        evs @ [ProcessCalled (sessionConfigsOf settled)] \<and>
                      processCalls evs = [] \<and>
                      assignments evs = sessionConfigsOf settled) \<and>
              outcome (start e settings w) =
                adopt ((case sessionProcess settings of
                          Some override \<Rightarrow> override
                        | None \<Rightarrow> defaultSessionProcessFunc e)
                       (sessionConfigsOf settled) (final (start e settings w)))"
proof -
  from fetches_shape [OF f] have fo: "list_all isFanOut evs2" by auto
  note z = fanOut_only [OF fo]
  show ?thesis
  proof (cases "list_ex isPending settled")
    case True
    from start_pending [OF f True, of e] z True show ?thesis by simp
  next
    case False
    from start_settled [OF f False, of e] obtain w3 evs3 where
      r: "forEach_sessionConfigs (providers settings) 0 (sessionConfigsOf settled) w2 =
            (None, w3, evs3)"
      and st: "start e settings w =
             \<lparr>outcome = adopt (processOf e settings (sessionConfigsOf settled) w3),
              final = w3,
              trace = evs2 @ evs3 @ [ProcessCalled (sessionConfigsOf settled)]\<rparr>"
      by auto
    from forEach_trace [OF r] z have
      "processCalls (evs2 @ evs3) = []" "assignments (evs2 @ evs3) = sessionConfigsOf settled"
      by (simp_all add: processCalls_append assignments_append)
    with st have
      "\<exists>evs. trace (start e settings w) = evs @ [ProcessCalled (sessionConfigsOf settled)] \<and>
             processCalls evs = [] \<and> assignments evs = sessionConfigsOf settled"
      by (intro exI [of _ "evs2 @ evs3"]) simp
    with st False show ?thesis by (simp add: processOf_def)
  qed
qed

text \<open>
  What \<open>init\<close> does once the page is ready: with an absent or zero delay it is \<open>start\<close>
  and sets no timer; otherwise it sets one timer and runs \<open>start\<close> once after it, and its
  promise follows the promise of \<open>start\<close> in fulfilment only.
\<close>

lemma init_delay_timer:
  assumes "whenReady e = Fulfilled ()"
  shows "case preConfigStartDelay settings of
           None \<Rightarrow>
             init e settings w = start e settings w \<and> timers (trace (init e settings w)) = []
         | Some delay \<Rightarrow>
             if delay = 0
             then init e settings w = start e settings w \<and>
                  timers (trace (init e settings w)) = []
             else trace (init e settings w) = TimerSet delay # trace (start e settings w) \<and>
                  timers (trace (init e settings w)) = [delay] \<and>
                  final (init e settings w) = final (start e settings w) \<and>
                  outcome (init e settings w) =
                    (case outcome (start e settings w) of
                       Fulfilled r \<Rightarrow> Fulfilled r
                     | Rejected x \<Rightarrow> Pending
                     | Pending \<Rightarrow> Pending)"
  using assms start_trace_timers [of e settings w]
  by (simp add: init_def startLater_def Let_def split: option.splits promise.splits)

section \<open>Claims settled on the model\<close>

text \<open>
  Claim C9. The provider lookup of the mutation phase stays within \<open>settings.providers\<close>:
  there are never more fulfilled fetch results than configured providers, so every index
  the loop uses is below the length of the list, the loop never reads a missing provider,
  and the session is never rejected with the TypeError that a call on \<open>undefined\<close>
  would throw.
\<close>

theorem C9_lookup_in_bounds:
  assumes "fetches settings w = (settled, w2, evs2)"
  shows "length (sessionConfigsOf settled) \<le> length (providers settings) \<and>
         (\<forall>i < length (sessionConfigsOf settled). i < length (providers settings)) \<and>
         fst (forEach_sessionConfigs (providers settings) 0 (sessionConfigsOf settled) w2) = None \<and>
         outcome (start e settings w) \<noteq> Rejected TypeError"
proof -
  have l: "length (sessionConfigsOf settled) \<le> length (providers settings)"
    by (rule sessionConfigs_fit [OF assms])
  have c: "fst (forEach_sessionConfigs (providers settings) 0 (sessionConfigsOf settled) w2) = None"
  proof -
    obtain thrown w3 evs3 where
      r: "forEach_sessionConfigs (providers settings) 0 (sessionConfigsOf settled) w2 =
          (thrown, w3, evs3)"
      by (cases "forEach_sessionConfigs (providers settings) 0 (sessionConfigsOf settled) w2") auto
    from forEach_completes [OF r] l r show ?thesis by simp
  qed
  have o: "outcome (start e settings w) \<noteq> Rejected TypeError"
  proof (cases "list_ex isPending settled")
    case True
    from start_pending [OF assms True, of e] show ?thesis by simp
  next
    case False
    from start_settled [OF assms False, of e] obtain w3 where
      "outcome (start e settings w) = adopt (processOf e settings (sessionConfigsOf settled) w3)"
      by auto
    then show ?thesis
      by (cases "processOf e settings (sessionConfigsOf settled) w3") simp_all
  qed
  from l c o show ?thesis by auto
qed

text \<open>The claim at the end-to-end example of the specification.\<close>

theorem C9_lookup_in_bounds_witness:
  "fetches specExample world0 =
     ([Fulfilled 5, Rejected 9], world0,
      [ShouldRunCalled 0, ShouldRunCalled 1, ShouldRunCalled 2, FetchCalled 0, FetchCalled 2]) \<and>
   length (sessionConfigsOf [Fulfilled 5, Rejected 9 :: (nat, ref) promise]) \<le>
     length (providers specExample) \<and>
   fst (forEach_sessionConfigs (providers specExample) 0
          (sessionConfigsOf [Fulfilled 5, Rejected 9 :: (nat, ref) promise]) world0) = None \<and>
   outcome (start env0 specExample world0) \<noteq> Rejected TypeError"
proof -
  have h: "fetches specExample world0 =
     ([Fulfilled 5, Rejected 9], world0,
      [ShouldRunCalled 0, ShouldRunCalled 1, ShouldRunCalled 2, FetchCalled 0, FetchCalled 2])"
    by (simp add: example_defs)
  from h C9_lookup_in_bounds [OF h, of env0] show ?thesis by blast
qed

lemma count_list_distinct:
  "distinct xs \<Longrightarrow> x \<in> set xs \<Longrightarrow> count_list xs x = 1"
  by (induction xs) auto

lemma forEach_frame:
  "forEach_sessionConfigs ps i vs w = (thrown, w', evs) \<Longrightarrow> list_all leavesContainers ps \<Longrightarrow>
     (\<forall>r. payload (heap w' r) = payload (heap w r)) \<and>
     (\<forall>r. r \<notin> set vs \<longrightarrow> heap w' r = heap w r)"
proof (induction vs arbitrary: i w thrown w' evs)
  case Nil
  then show ?case by simp
next
  case (Cons v vs)
  show ?case
  proof (cases "i < length ps")
    case False
    with Cons.prems show ?thesis by simp
  next
    case True
    obtain ts w2 where x: "expandTasks (ps ! i) (setSessionConfig (ps ! i) v w) = (ts, w2)"
      by (cases "expandTasks (ps ! i) (setSessionConfig (ps ! i) v w)") auto
    from True Cons.prems(2) have lc: "leavesContainers (ps ! i)"
      by (simp add: list_all_length)
    from lc x have h2: "heap w2 = heap w"
      by (metis leavesContainers_def snd_conv)
    from Cons.prems(1) True x obtain evs' where
      r: "forEach_sessionConfigs ps (Suc i) vs (assignExecutables v ts w2) = (thrown, w', evs')"
      by (auto simp: Let_def split: prod.splits)
    from Cons.IH [OF r Cons.prems(2)] have
      a: "\<forall>r. payload (heap w' r) = payload (heap (assignExecutables v ts w2) r)" and
      b: "\<forall>r. r \<notin> set vs \<longrightarrow> heap w' r = heap (assignExecutables v ts w2) r"
      by auto
    from a b h2 show ?thesis by (auto simp: assignExecutables_def)
  qed
qed

lemma stub_leavesContainers: "leavesContainers (stub name run fetched tasks)"
  by (simp add: leavesContainers_def stub_def)

text \<open>
  Claim C10, as amended. Once all fetches have settled, the containers handed to the
  processing function are the very references the fulfilled fetches produced, and the
  orchestrator assigns \<open>executables\<close> once for each position of that sequence, in order:
  a container is assigned exactly once when the fulfilled fetches produced pairwise distinct
  containers. When no provider writes to the containers in \<open>setSessionConfig\<close> and
  \<open>expandTasks\<close>, every other field of every container is at the dispatch what it was
  when the fetches had settled, and a container that did not survive is unchanged
  altogether.
\<close>

theorem C10_frame:
  assumes f: "fetches settings w = (settled, w2, evs2)" and s: "\<not> list_ex isPending settled"
  shows "processCalls (trace (start e settings w)) = [sessionConfigsOf settled] \<and>
         assignments (trace (start e settings w)) = sessionConfigsOf settled \<and>
         (distinct (sessionConfigsOf settled) \<longrightarrow>
            (\<forall>v \<in> set (sessionConfigsOf settled).
               count_list (assignments (trace (start e settings w))) v = 1)) \<and>
         (list_all leavesContainers (providers settings) \<longrightarrow>
            (\<forall>r. payload (heap (final (start e settings w)) r) = payload (heap w2 r)) \<and>
            (\<forall>r. r \<notin> set (sessionConfigsOf settled) \<longrightarrow>
                 heap (final (start e settings w)) r = heap w2 r))"
proof -
  from fetches_shape [OF f] have fo: "list_all isFanOut evs2" by auto
  note z = fanOut_only [OF fo]
  from start_settled [OF f s, of e] obtain w3 evs3 where
    r: "forEach_sessionConfigs (providers settings) 0 (sessionConfigsOf settled) w2 =
          (None, w3, evs3)"
    and st: "start e settings w =
           \<lparr>outcome = adopt (processOf e settings (sessionConfigsOf settled) w3),
            final = w3,
            trace = evs2 @ evs3 @ [ProcessCalled (sessionConfigsOf settled)]\<rparr>"
    by auto
  from forEach_trace [OF r] z st have
    p: "processCalls (trace (start e settings w)) = [sessionConfigsOf settled]" and
    a: "assignments (trace (start e settings w)) = sessionConfigsOf settled"
    by (simp_all add: processCalls_append assignments_append)
  from a have
    d: "distinct (sessionConfigsOf settled) \<longrightarrow>
            (\<forall>v \<in> set (sessionConfigsOf settled).
               count_list (assignments (trace (start e settings w))) v = 1)"
    by (simp add: count_list_distinct)
  from st have fw: "final (start e settings w) = w3" by simp
  from forEach_frame [OF r] fw have
    fr: "list_all leavesContainers (providers settings) \<longrightarrow>
            (\<forall>r. payload (heap (final (start e settings w)) r) = payload (heap w2 r)) \<and>
            (\<forall>r. r \<notin> set (sessionConfigsOf settled) \<longrightarrow>
                 heap (final (start e settings w)) r = heap w2 r)"
    by simp
  from p a d fr show ?thesis by blast
qed

text \<open>The amended claim at the end-to-end example of the specification.\<close>

theorem C10_frame_witness:
  "fetches specExample world0 =
     ([Fulfilled 5, Rejected 9], world0,
      [ShouldRunCalled 0, ShouldRunCalled 1, ShouldRunCalled 2, FetchCalled 0, FetchCalled 2]) \<and>
   \<not> list_ex isPending [Fulfilled 5, Rejected 9 :: (nat, ref) promise] \<and>
   distinct (sessionConfigsOf [Fulfilled 5, Rejected 9 :: (nat, ref) promise]) \<and>
   list_all leavesContainers (providers specExample) \<and>
   processCalls (trace (start env0 specExample world0)) = [[5]] \<and>
   assignments (trace (start env0 specExample world0)) = [5] \<and>
   count_list (assignments (trace (start env0 specExample world0))) 5 = 1 \<and>
   payload (heap (final (start env0 specExample world0)) 5) = payload (heap world0 5) \<and>
   heap (final (start env0 specExample world0)) 6 = heap world0 6"
proof -
  have h: "fetches specExample world0 =
     ([Fulfilled 5, Rejected 9], world0,
      [ShouldRunCalled 0, ShouldRunCalled 1, ShouldRunCalled 2, FetchCalled 0, FetchCalled 2])"
    by (simp add: example_defs)
  have s: "\<not> list_ex isPending [Fulfilled 5, Rejected 9 :: (nat, ref) promise]" by simp
  have d: "distinct (sessionConfigsOf [Fulfilled 5, Rejected 9 :: (nat, ref) promise])" by simp
  have l: "list_all leavesContainers (providers specExample)"
    by (simp add: specExample_def settingsOf_def stub_leavesContainers)
  from C10_frame [OF h s, of env0] d l have
    "processCalls (trace (start env0 specExample world0)) = [[5]] \<and>
     assignments (trace (start env0 specExample world0)) = [5] \<and>
     count_list (assignments (trace (start env0 specExample world0))) 5 = 1 \<and>
     payload (heap (final (start env0 specExample world0)) 5) = payload (heap world0 5) \<and>
     heap (final (start env0 specExample world0)) 6 = heap world0 6"
    by simp
  with h s d l show ?thesis by blast
qed

text \<open>
  Claim C10 as stated fails where two fetches resolve to the same object: container
  \<open>5\<close> survives and its \<open>executables\<close> field is assigned twice.
\<close>

theorem C10_shared_container_assigned_twice:
  "sessionConfigsOf (fst (fetches sharedContainer world0)) = [5, 5] \<and>
   count_list (assignments (trace (start env0 sharedContainer world0))) 5 = 2 \<and>
   assignments (trace (start env0 sharedContainer world0)) = [5, 5]"
  by (simp add: example_defs)

section \<open>Claims the code does not meet\<close>

text \<open>
  The loop of the mutation phase reads \<open>settings.providers[i]\<close> with \<open>i\<close> the index of
  the configuration among the fulfilled results. That is the originating provider only
  while no earlier provider was skipped by \<open>shouldRun\<close> and no earlier fetch failed.
  The delayed start resolves its promise when \<open>start\<close> is fulfilled and has no branch
  for its rejection.
\<close>

lemma failedFirst_trace:
  "trace (start env0 failedFirst world0) =
     [ShouldRunCalled 0, ShouldRunCalled 1, FetchCalled 0, FetchCalled 1,
      SetSessionConfigCalled 0 7, ExpandTasksCalled 0, ExecutablesAssigned 7 [2],
      ProcessCalled [7]]"
  by (simp add: example_defs)

lemma init_delayed_never_rejected:
  assumes "whenReady e = Fulfilled ()" and "preConfigStartDelay settings = Some delay"
    and "delay \<noteq> 0"
  shows "outcome (init e settings w) \<noteq> Rejected x"
  using assms by (simp add: init_def startLater_def Let_def split: promise.splits)

lemma init_immediate_adopts_start:
  assumes "whenReady e = Fulfilled ()"
    and "preConfigStartDelay settings = None \<or> preConfigStartDelay settings = Some 0"
  shows "init e settings w = start e settings w"
  using assms by (auto simp: init_def)

text \<open>
  What does hold of the calls: no capability of a provider, named by its position in
  \<open>settings.providers\<close>, is called twice in a run of \<open>start\<close>.
\<close>

lemma filter_shouldRun_increasing:
  "filter_shouldRun i ps w = (kept, w', evs) \<Longrightarrow>
     sorted_wrt (<) (map fst kept) \<and> (\<forall>j \<in> set (map fst kept). i \<le> j)"
proof (induction ps arbitrary: i w kept w' evs)
  case Nil
  then show ?case by simp
next
  case (Cons p ps)
  from Cons.prems obtain b w1 kept' evs' where
    r: "filter_shouldRun (Suc i) ps w1 = (kept', w', evs')"
    and k: "kept = (if b then (i, p) # kept' else kept')"
    by (auto split: prod.splits)
  from Cons.IH [OF r] have
    "sorted_wrt (<) (map fst kept')" "\<forall>j \<in> set (map fst kept'). Suc i \<le> j"
    by auto
  with k show ?case by (auto simp: Suc_le_eq less_imp_le)
qed

lemma forEach_calls:
  "forEach_sessionConfigs ps i vs w = (thrown, w', evs) \<Longrightarrow>
     distinct (filter isCapabilityCall evs) \<and>
     (\<forall>ev \<in> set evs. \<forall>j. calledProvider ev = Some j \<longrightarrow> i \<le> j) \<and>
     (\<forall>ev \<in> set evs. isCapabilityCall ev \<longrightarrow> calledProvider ev \<noteq> None)"
proof (induction vs arbitrary: i w thrown w' evs)
  case Nil
  then show ?case by simp
next
  case (Cons v vs)
  show ?case
  proof (cases "i < length ps")
    case False
    with Cons.prems show ?thesis by simp
  next
    case True
    with Cons.prems obtain ts w2 evs' where
      r: "forEach_sessionConfigs ps (Suc i) vs w2 = (thrown, w', evs')" and
      e: "evs = SetSessionConfigCalled i v # ExpandTasksCalled i # ExecutablesAssigned v ts # evs'"
      by (auto simp: Let_def split: prod.splits)
    from Cons.IH [OF r] have
      d: "distinct (filter isCapabilityCall evs')" and
      g: "\<forall>ev \<in> set evs'. \<forall>j. calledProvider ev = Some j \<longrightarrow> Suc i \<le> j" and
      n: "\<forall>ev \<in> set evs'. isCapabilityCall ev \<longrightarrow> calledProvider ev \<noteq> None"
      by auto
    from g have "SetSessionConfigCalled i v \<notin> set evs'" "ExpandTasksCalled i \<notin> set evs'"
      by fastforce+
    with d g n e show ?thesis by (auto simp: Suc_le_eq less_imp_le)
  qed
qed

lemma start_calls_each_capability_once:
  "distinct (filter isCapabilityCall (trace (start e settings w)))"
proof -
  obtain settled w2 evs2 where f: "fetches settings w = (settled, w2, evs2)"
    by (cases "fetches settings w") auto
  from fetches_shape [OF f] obtain kept w1 evs1 where
    k: "eligible settings w = (kept, w1, evs1)" and
    sh: "evs2 = map ShouldRunCalled [0..<length (providers settings)] @
                map FetchCalled (map fst kept)"
    by auto
  from k have "filter_shouldRun 0 (providers settings) w = (kept, w1, evs1)"
    by (simp add: eligible_def)
  from filter_shouldRun_increasing [OF this] have "distinct (map fst kept)"
    by (simp add: strict_sorted_iff)
  with sh have d2: "distinct evs2"
    by (auto simp: distinct_map inj_on_def)
  from sh have a2: "filter isCapabilityCall evs2 = evs2"
    by (auto simp: filter_id_conv)
  from sh have c2: "\<forall>ev \<in> set evs2. calledProvider ev = None"
    by auto
  show ?thesis
  proof (cases "list_ex isPending settled")
    case True
    from start_pending [OF f True, of e] d2 a2 show ?thesis by simp
  next
    case False
    from start_settled [OF f False, of e] obtain w3 evs3 where
      r: "forEach_sessionConfigs (providers settings) 0 (sessionConfigsOf settled) w2 =
            (None, w3, evs3)" and
      st: "trace (start e settings w) = evs2 @ evs3 @ [ProcessCalled (sessionConfigsOf settled)]"
      by auto
    from forEach_calls [OF r] have
      d3: "distinct (filter isCapabilityCall evs3)" and
      n3: "\<forall>ev \<in> set evs3. isCapabilityCall ev \<longrightarrow> calledProvider ev \<noteq> None"
      by auto
    from c2 n3 have "set evs2 \<inter> set (filter isCapabilityCall evs3) = {}"
      by auto
    with d2 a2 d3 st show ?thesis by simp
  qed
qed

text \<open>
  Claim C1: every surviving configuration is handed back, by \<open>setSessionConfig\<close>, to the
  provider that fetched it. On the code, where the first provider does not run and the
  second fetches container \<open>7\<close>, the container is handed to the first provider (which
  ends up holding it) and the second provider, which fetched it, never receives it.
\<close>

theorem C1_config_handed_to_skipped_provider:
  "trace (start env0 skippedFirst world0) =
     [ShouldRunCalled 0, ShouldRunCalled 1, FetchCalled 1,
      SetSessionConfigCalled 0 7, ExpandTasksCalled 0, ExecutablesAssigned 7 [],
      ProcessCalled [7]] \<and>
   pstate (final (start env0 skippedFirst world0)) 0 = Some 7 \<and>
   pstate (final (start env0 skippedFirst world0)) 1 = None"
  by (simp add: example_defs)

text \<open>
  Claim C2: the executables attached to each element handed to the processing function are
  the output of \<open>expandTasks\<close> of the provider that produced that element's
  configuration. On the code, at the same input, the processing function is called once
  with container \<open>7\<close>, whose executables are the empty task list of the skipped first
  provider, while the provider that produced it expands to the task \<open>1\<close>.
\<close>

theorem C2_executables_of_other_provider:
  "processCalls (trace (start env0 skippedFirst world0)) = [[7]] \<and>
   executables (heap (final (start env0 skippedFirst world0)) 7) = [] \<and>
   fst (expandTasks (providers skippedFirst ! 1) (final (start env0 skippedFirst world0))) = [1]"
  by (simp add: example_defs)

text \<open>
  Claim C3: a provider whose \<open>shouldRun\<close> returns false has none of its other
  capabilities invoked. On the code, at the same input, the first provider answers false
  and both its \<open>setSessionConfig\<close> and its \<open>expandTasks\<close> are called.
\<close>

theorem C3_skipped_provider_invoked:
  "fst (shouldRun (providers skippedFirst ! 0) world0) = False \<and>
   SetSessionConfigCalled 0 7 \<in> set (trace (start env0 skippedFirst world0)) \<and>
   ExpandTasksCalled 0 \<in> set (trace (start env0 skippedFirst world0))"
  by (simp add: example_defs)

text \<open>
  Claim C6: when the promise of the processing function rejects, the promise of \<open>init\<close>
  rejects with the same reason. On the code, with a start delay of 100 ms and a
  processing function that rejects with reason \<open>3\<close>, the promise of \<open>start\<close> rejects
  with that reason and the promise of \<open>init\<close> never settles.
\<close>

theorem C6_delayed_rejection_lost:
  "whenReady env0 = Fulfilled () \<and>
   outcome (start env0 delayedRejecting world0) = Rejected (Reason 3) \<and>
   outcome (init env0 delayedRejecting world0) = Pending"
  by (simp add: example_defs init_def startLater_def)

text \<open>
  Claim C4: a provider's fetch failure never affects sibling providers. On the code, of two
  eligible providers whose second fetches container \<open>7\<close>: when the fetch of the first
  succeeds, the second provider receives container \<open>7\<close> and the container carries the
  second provider's task \<open>1\<close>; when the fetch of the first fails, the second provider
  receives nothing, the first provider receives container \<open>7\<close>, and the container
  carries the first provider's task \<open>2\<close>.
\<close>

theorem C4_failed_fetch_reaches_sibling:
  "fst (fetches succeededFirst world0) = [Fulfilled 6, Fulfilled 7] \<and>
   pstate (final (start env0 succeededFirst world0)) 1 = Some 7 \<and>
   executables (heap (final (start env0 succeededFirst world0)) 7) = [1] \<and>
   fst (fetches failedFirst world0) = [Rejected 9, Fulfilled 7] \<and>
   pstate (final (start env0 failedFirst world0)) 1 = None \<and>
   pstate (final (start env0 failedFirst world0)) 0 = Some 7 \<and>
   executables (heap (final (start env0 failedFirst world0)) 7) = [2]"
  by (simp add: example_defs)

text \<open>
  Claim C5: when every eligible provider's fetch fails, the processing function is called
  once with the empty sequence and the session result resolves to the result of that call.
  On the code, with two failing fetches, a start delay of 100 ms and a processing function
  that rejects with reason \<open>3\<close>, the processing function is called once with the empty
  sequence and rejects, the promise of \<open>start\<close> rejects with that reason, and the promise of
  \<open>init\<close> never settles.
\<close>

theorem C5_empty_dispatch_result_lost:
  "list_all isRejected (fst (fetches (rejecting allFailing 100) world0)) \<and>
   processCalls (trace (init env0 (rejecting allFailing 100) world0)) = [[]] \<and>
   processOf env0 (rejecting allFailing 100) []
     (final (init env0 (rejecting allFailing 100) world0)) = Rejected 3 \<and>
   outcome (start env0 (rejecting allFailing 100) world0) = Rejected (Reason 3) \<and>
   outcome (init env0 (rejecting allFailing 100) world0) = Pending"
  by (simp add: example_defs init_def startLater_def)

text \<open>
  Claim C7: with a positive delay the orchestration starts after a single-shot timer and
  the session result resolves with whatever the delayed orchestration produces. On the code,
  with the providers of the end-to-end example, a delay of 250 ms and a processing function
  that rejects with reason \<open>3\<close>, one timer of 250 ms is set and \<open>start\<close> runs after it,
  the promise of \<open>start\<close> rejects with that reason, and the promise of \<open>init\<close> never
  settles.
\<close>

theorem C7_delayed_rejection_not_passed_on:
  "preConfigStartDelay (rejecting specExample 250) = Some 250 \<and>
   timers (trace (init env0 (rejecting specExample 250) world0)) = [250] \<and>
   trace (init env0 (rejecting specExample 250) world0) =
     TimerSet 250 # trace (start env0 (rejecting specExample 250) world0) \<and>
   outcome (start env0 (rejecting specExample 250) world0) = Rejected (Reason 3) \<and>
   outcome (init env0 (rejecting specExample 250) world0) = Pending"
  by (simp add: example_defs init_def startLater_def)

text \<open>
  Claim C8: the dispatch passes the ordered sequence of enriched containers to the
  processing function, whose promise becomes the result of the orchestrator and hence of
  the session. On the code, with two providers fetching containers \<open>6\<close> and \<open>7\<close>, a
  delay of 100 ms and an override that rejects with reason \<open>3\<close>, the override is called
  once with containers \<open>6\<close> and \<open>7\<close> in that order, each holding its provider's tasks,
  and the promise of \<open>start\<close> rejects with that reason, but the promise of \<open>init\<close> never
  settles.
\<close>

theorem C8_dispatch_result_not_the_sessions:
  "processCalls (trace (init env0 (rejecting succeededFirst 100) world0)) = [[6, 7]] \<and>
   executables (heap (final (init env0 (rejecting succeededFirst 100) world0)) 6) = [2] \<and>
   executables (heap (final (init env0 (rejecting succeededFirst 100) world0)) 7) = [1] \<and>
   processOf env0 (rejecting succeededFirst 100) [6, 7]
     (final (init env0 (rejecting succeededFirst 100) world0)) = Rejected 3 \<and>
   outcome (start env0 (rejecting succeededFirst 100) world0) = Rejected (Reason 3) \<and>
   outcome (init env0 (rejecting succeededFirst 100) world0) = Pending"
  by (simp add: example_defs init_def startLater_def)

end
